theory Spec2Isabelle
  imports Main "HOL-Library.AList" "HOL-Library.Char_ord" "HOL-Library.List_Lexorder"
begin

section \<open>The markdown merger of \<open>compile.py\<close>\<close>

text \<open>
  \<open>compile.py\<close> merges the \<open>*.md\<close> entries of a directory into one file. Its only
  function with behaviour, \<open>merge_markdown_files\<close>, is a sequence of calls into
  \<open>pathlib\<close> and the text layer of \<open>io\<close>, so the embedding has two layers: a model of the
  file system and of the library calls the function makes, and the function itself,
  translated statement by statement.

  Scope of the file-system model:
  \<^item> POSIX. Paths are taken resolved: a path is the list of its components below the
    current directory, \<open>[]\<close> being the current directory itself. There are no links, so two
    different paths never name the same file.
  \<^item> A file is a sequence of bytes (\<open>string\<close>, one \<open>char\<close> per byte) with a read and a write
    permission; directories carry no permissions.
  \<^item> Once the output file has been opened, writing data to it does not fail (no quota);
    the errors of the model are those of opening a path and of reading a file.
  \<^item> The lines printed on standard output are not modelled; each \<open>return False\<close> of the
    source is told apart by the message printed just before it.
\<close>

subsection \<open>File system\<close>

type_synonym path = "string list"

record regfile =
  readable :: bool
  writable :: bool
  content :: string

datatype node = Dir | File regfile

text \<open>
  The file system is an association list from paths to nodes. Its order stands for the
  order in which the operating system lists a directory, which is arbitrary; a lookup takes
  the first binding of a path.
\<close>

type_synonym fs = "(path \<times> node) list"

definition node_at :: "fs \<Rightarrow> path \<Rightarrow> node option" where
  "node_at fs p = (if p = [] then Some Dir else map_of fs p)"

text \<open>\<open>Path.exists()\<close> and \<open>Path.is_dir()\<close>.\<close>

definition exists_path :: "fs \<Rightarrow> path \<Rightarrow> bool" where
  "exists_path fs p = (node_at fs p \<noteq> None)"

definition is_dir :: "fs \<Rightarrow> path \<Rightarrow> bool" where
  "is_dir fs p = (node_at fs p = Some Dir)"

text \<open>The bytes of the file at a path (empty when the path is no file).\<close>

definition text_of :: "fs \<Rightarrow> path \<Rightarrow> string" where
  "text_of fs p = (case node_at fs p of Some (File f) \<Rightarrow> content f | _ \<Rightarrow> [])"

definition content_at :: "fs \<Rightarrow> path \<Rightarrow> string option" where
  "content_at fs p = (case node_at fs p of Some (File f) \<Rightarrow> Some (content f) | _ \<Rightarrow> None)"

subsection \<open>Exceptions and results\<close>

datatype errno = ENOENT | ENOTDIR | EISDIR | EACCES

datatype exn = OSError errno | UnicodeDecodeError

text \<open>
  The four ways \<open>merge_markdown_files\<close> returns \<open>False\<close>, named as the specification names
  them. In the source they are the messages
  \<open>Error: Directory '...' does not exist\<close> (line 21),
  \<open>Error: '...' is not a directory\<close> (line 25),
  \<open>Error: No markdown files found in '...'\<close> (line 32) and
  \<open>Error writing to '...': e\<close> (line 62), the last one printing the exception caught.
  \<open>Inr ()\<close> is the return value \<open>True\<close>.
\<close>

datatype failure = NotFoundError | NotADirectoryError | EmptyInputError | IOFailure exn

type_synonym result = "failure + unit"


subsection \<open>\<open>book_path.glob('*.md')\<close> and \<open>sorted\<close>\<close>

definition endswith :: "string \<Rightarrow> string \<Rightarrow> bool" where
  "endswith s suf = (length suf \<le> length s \<and> drop (length s - length suf) s = suf)"

text \<open>
  \<open>glob('*.md')\<close> yields the entries directly inside the directory whose name matches the
  pattern, files and directories alike, dot files included; \<open>*\<close> also matches the empty
  string, so the name \<open>.md\<close> matches.
\<close>

definition glob_match :: "path \<Rightarrow> path \<Rightarrow> bool" where
  "glob_match d p = (p \<noteq> [] \<and> butlast p = d \<and> endswith (last p) ''.md'')"

definition glob_md :: "fs \<Rightarrow> path \<Rightarrow> path list" where
  "glob_md fs d = remdups (filter (glob_match d) (map fst fs))"

text \<open>
  \<open>sorted\<close> compares \<open>Path\<close> objects, that is their lists of components, each component by
  code point. Here a component is a byte string and bytes are compared; on UTF-8 names
  the two orders agree.
\<close>

definition md_files :: "fs \<Rightarrow> path \<Rightarrow> path list" where
  "md_files fs d = sort (glob_md fs d)"

subsection \<open>\<open>read_text(encoding='utf-8')\<close>\<close>

definition cont_byte :: "nat \<Rightarrow> bool" where
  "cont_byte b = (0x80 \<le> b \<and> b \<le> 0xBF)"

text \<open>
  The byte sequences the strict UTF-8 decoder accepts (the well-formed sequences of the
  Unicode standard: no overlong forms, no surrogates, nothing above U+10FFFF).
\<close>

fun utf8_valid :: "nat list \<Rightarrow> bool" where
  "utf8_valid [] = True"
| "utf8_valid (b0 # bs) =
     (if b0 < 0x80 then utf8_valid bs
      else if 0xC2 \<le> b0 \<and> b0 \<le> 0xDF then
        (case bs of b1 # r \<Rightarrow> cont_byte b1 \<and> utf8_valid r | _ \<Rightarrow> False)
      else if 0xE0 \<le> b0 \<and> b0 \<le> 0xEF then
        (case bs of b1 # b2 # r \<Rightarrow>
           cont_byte b1 \<and> (b0 = 0xE0 \<longrightarrow> 0xA0 \<le> b1) \<and> (b0 = 0xED \<longrightarrow> b1 \<le> 0x9F)
           \<and> cont_byte b2 \<and> utf8_valid r
         | _ \<Rightarrow> False)
      else if 0xF0 \<le> b0 \<and> b0 \<le> 0xF4 then
        (case bs of b1 # b2 # b3 # r \<Rightarrow>
           cont_byte b1 \<and> (b0 = 0xF0 \<longrightarrow> 0x90 \<le> b1) \<and> (b0 = 0xF4 \<longrightarrow> b1 \<le> 0x8F)
           \<and> cont_byte b2 \<and> cont_byte b3 \<and> utf8_valid r
         | _ \<Rightarrow> False)
      else False)"

definition CR :: char where "CR = CHR 0x0D"
definition LF :: char where "LF = CHR 0x0A"

text \<open>
  \<open>read_text\<close> opens the file in text mode with \<open>newline=None\<close>: universal newlines, every
  \<open>CR LF\<close> and every other \<open>CR\<close> is returned as \<open>LF\<close>. \<open>CR\<close> and \<open>LF\<close> are single bytes of
  UTF-8 and occur in no longer sequence, so the translation is the same on the bytes as on
  the decoded text.
\<close>

fun universal_newlines :: "string \<Rightarrow> string" where
  "universal_newlines [] = []"
| "universal_newlines [c] = (if c = CR then [LF] else [c])"
| "universal_newlines (c # d # cs) =
     (if c = CR then
        (if d = LF then LF # universal_newlines cs else LF # universal_newlines (d # cs))
      else c # universal_newlines (d # cs))"

text \<open>
  The text \<open>read_text\<close> returns, as the bytes that writing it back in UTF-8 produces, or
  the exception it raises.
\<close>

definition read_text :: "fs \<Rightarrow> path \<Rightarrow> exn + string" where
  "read_text fs p =
     (case node_at fs p of
        None \<Rightarrow> Inl (OSError ENOENT)
      | Some Dir \<Rightarrow> Inl (OSError EISDIR)
      | Some (File f) \<Rightarrow>
          if \<not> readable f then Inl (OSError EACCES)
          else if \<not> utf8_valid (map of_char (content f)) then Inl UnicodeDecodeError
          else Inr (universal_newlines (content f)))"

subsection \<open>The output file: \<open>open('w')\<close>, \<open>write\<close>, close\<close>

text \<open>
  \<open>output_path.open('w', encoding='utf-8')\<close> truncates an existing file and creates a
  missing one in an existing directory.
\<close>

definition open_w :: "fs \<Rightarrow> path \<Rightarrow> exn + fs" where
  "open_w fs p =
     (case node_at fs p of
        Some Dir \<Rightarrow> Inl (OSError EISDIR)
      | Some (File f) \<Rightarrow>
          if writable f then Inr (AList.update p (File (f\<lparr>content := []\<rparr>)) fs)
          else Inl (OSError EACCES)
      | None \<Rightarrow>
          (case node_at fs (butlast p) of
             None \<Rightarrow> Inl (OSError ENOENT)
           | Some (File _) \<Rightarrow> Inl (OSError ENOTDIR)
           | Some Dir \<Rightarrow>
               Inr (AList.update p (File \<lparr>readable = True, writable = True, content = []\<rparr>) fs)))"

text \<open>Replace the bytes of the file at a path.\<close>

definition put :: "fs \<Rightarrow> path \<Rightarrow> string \<Rightarrow> fs" where
  "put fs p s =
     (case node_at fs p of
        Some (File f) \<Rightarrow> AList.update p (File (f\<lparr>content := s\<rparr>)) fs
      | _ \<Rightarrow> fs)"

text \<open>
  The text layer and the buffered writer below it hold written data back; how much of it
  has reached the file at a given moment depends on the sizes of the buffers and of the
  writes. A \<open>policy\<close> gives, for the writes made so far, the number of bytes that have
  reached the file; the model is a function of it, and the theorems hold for every policy.
  The bytes in the file never decrease and are always a prefix of the data written.
  On POSIX, writing translates no newline.
\<close>

type_synonym policy = "string list \<Rightarrow> nat"

type_synonym wstate = "fs \<times> string list"

definition write_out :: "policy \<Rightarrow> path \<Rightarrow> wstate \<Rightarrow> string \<Rightarrow> wstate" where
  "write_out pol out st s =
     (let hist = snd st @ [s];
          total = concat hist;
          n = max (length (text_of (fst st) out)) (min (length total) (pol hist))
      in (put (fst st) out (take n total), hist))"

text \<open>Leaving the \<open>with\<close> block closes the file, which flushes everything written.\<close>

definition close :: "path \<Rightarrow> wstate \<Rightarrow> fs" where
  "close out st = put (fst st) out (concat (snd st))"

text \<open>Two policies: nothing reaches the file before it is closed; everything does at once.\<close>

definition flush_at_close :: policy where
  "flush_at_close hist = 0"

definition write_through :: policy where
  "write_through hist = length (concat hist)"

subsection \<open>\<open>merge_markdown_files\<close>\<close>

definition separator :: string where
  "separator = [LF, LF, CHR ''-'', CHR ''-'', CHR ''-'', LF, LF]"

text \<open>
  The body of the \<open>for\<close> loop (lines 44 to 55) over \<open>enumerate(md_files)\<close>; \<open>n\<close> is
  \<open>len(md_files)\<close>. An exception leaves the loop with the state reached.
\<close>

fun merge_loop :: "policy \<Rightarrow> path \<Rightarrow> nat \<Rightarrow> (nat \<times> path) list \<Rightarrow> wstate \<Rightarrow> (exn + unit) \<times> wstate" where
  "merge_loop pol out n [] st = (Inr (), st)"
| "merge_loop pol out n ((i, md_file) # rest) st =
     (case read_text (fst st) md_file of
        Inl e \<Rightarrow> (Inl e, st)
      | Inr text \<Rightarrow>
          let st1 = write_out pol out st text;
              st2 = (if int i < int n - 1 then write_out pol out st1 separator else st1)
          in merge_loop pol out n rest st2)"

text \<open>Lines 9 to 63. The result is the value returned and the file system left behind.\<close>

definition merge_markdown_files :: "policy \<Rightarrow> fs \<Rightarrow> path \<Rightarrow> path \<Rightarrow> result \<times> fs" where
  "merge_markdown_files pol fs book_dir output_file =
     (if \<not> exists_path fs book_dir then (Inl NotFoundError, fs)
      else if \<not> is_dir fs book_dir then (Inl NotADirectoryError, fs)
      else
        let files = md_files fs book_dir in
        if files = [] then (Inl EmptyInputError, fs)
        else
          (case open_w fs output_file of
             Inl e \<Rightarrow> (Inl (IOFailure e), fs)
           | Inr fs1 \<Rightarrow>
               (case merge_loop pol output_file (length files) (enumerate 0 files) (fs1, []) of
                  (Inl e, st) \<Rightarrow> (Inl (IOFailure e), close output_file st)
                | (Inr u, st) \<Rightarrow> (Inr (), close output_file st))))"


subsection \<open>What the claims compare the code with\<close>

text \<open>
  The contents joined by a separator: one between consecutive elements, none after the
  last.
\<close>

fun join :: "string \<Rightarrow> string list \<Rightarrow> string" where
  "join s [] = []"
| "join s [x] = x"
| "join s (x # y # ys) = x @ s @ join s (y # ys)"

text \<open>What pass \<open>i\<close> of \<open>n\<close> of the loop writes for the text \<open>t\<close> it has read.\<close>

definition piece :: "nat \<Rightarrow> nat \<Rightarrow> string \<Rightarrow> string" where
  "piece n i t = t @ (if int i < int n - 1 then separator else [])"

text \<open>
  The loop when the output file is none of the files read: every file is read as the
  file system holds it, and the value is the outcome and the data written.
\<close>

fun unaliased_loop :: "nat \<Rightarrow> fs \<Rightarrow> (nat \<times> path) list \<Rightarrow> (exn + unit) \<times> string" where
  "unaliased_loop n fs [] = (Inr (), [])"
| "unaliased_loop n fs ((i, p) # rest) =
     (case read_text fs p of
        Inl e \<Rightarrow> (Inl e, [])
      | Inr t \<Rightarrow> (case unaliased_loop n fs rest of (r, d) \<Rightarrow> (r, piece n i t @ d)))"

text \<open>
  The invariant of the loop: the file system is the one the output was opened in, with
  some prefix of the data written so far at the output path.
\<close>

definition tracks :: "fs \<Rightarrow> path \<Rightarrow> wstate \<Rightarrow> bool" where
  "tracks fs1 out st = (\<exists>m. fst st = put fs1 out (take m (concat (snd st))))"

subsection \<open>Example file systems\<close>

definition rw_file :: "string \<Rightarrow> node" where
  "rw_file s = File \<lparr>readable = True, writable = True, content = s\<rparr>"

text \<open>The directory of the specification's first example, listed out of order.\<close>

definition fs_ab :: fs where
  "fs_ab = [([''book''], Dir), ([''book'', ''b.md''], rw_file ''B''),
            ([''book'', ''a.md''], rw_file ''A''), ([''book'', ''notes.txt''], rw_file ''T'')]"

text \<open>A single file with a Windows line ending.\<close>

definition fs_crlf :: fs where
  "fs_crlf = [([''book''], Dir), ([''book'', ''a.md''], rw_file [CHR ''A'', CR, LF, CHR ''B''])]"

text \<open>No directory \<open>book\<close>; an output file is there already.\<close>

definition fs_missing :: fs where
  "fs_missing = [([''compiled.md''], rw_file ''old'')]"

text \<open>\<open>book\<close> is a regular file.\<close>

definition fs_plain :: fs where
  "fs_plain = [([''book''], rw_file ''not a directory''), ([''compiled.md''], rw_file ''old'')]"









text \<open>A directory whose only entry named \<open>*.md\<close> is itself a directory.\<close>

definition fs_md_dir :: fs where
  "fs_md_dir = [([''book''], Dir), ([''book'', ''x.md''], Dir), ([''compiled.md''], rw_file ''old'')]"

section \<open>Lemmas\<close>

subsection \<open>The file system\<close>

lemma node_at_update:
  "p \<noteq> [] \<Longrightarrow> node_at (AList.update p v fs) q = (if q = p then Some v else node_at fs q)"
  by (simp add: node_at_def update_conv')

lemma put_root [simp]: "put fs [] s = fs"
  by (simp add: put_def node_at_def)

lemma node_at_put_other:
  assumes "q \<noteq> out"
  shows "node_at (put fs out s) q = node_at fs q"
proof (cases "out = []")
  case True
  then show ?thesis by simp
next
  case False
  with assms show ?thesis
    by (auto simp: put_def node_at_update split: option.splits node.splits)
qed

lemma node_at_put_same:
  "node_at fs out = Some (File f) \<Longrightarrow> node_at (put fs out s) out = Some (File (f\<lparr>content := s\<rparr>))"
proof -
  assume a: "node_at fs out = Some (File f)"
  then have "out \<noteq> []" by (auto simp: node_at_def)
  with a show ?thesis by (simp add: put_def node_at_update)
qed

lemma put_put: "put (put fs out s) out t = put fs out t"
proof (cases "node_at fs out")
  case None
  then show ?thesis by (simp add: put_def)
next
  case (Some nd)
  show ?thesis
  proof (cases nd)
    case Dir
    with Some show ?thesis by (simp add: put_def)
  next
    case (File f)
    with Some have ne: "out \<noteq> []" by (auto simp: node_at_def)
    from Some File ne show ?thesis
      by (simp add: put_def node_at_update)
  qed
qed

lemma put_same_content:
  "node_at fs out = Some (File f) \<Longrightarrow> content f = s \<Longrightarrow> put fs out s = fs"
  by (cases "out = []") (auto simp: put_def node_at_def intro: update_triv)

lemma keys_put: "map fst (put fs out s) = map fst fs"
  by (cases "out = []")
     (auto simp: put_def node_at_def update_keys split: option.splits node.splits dest: map_of_SomeD
           intro: rev_image_eqI)

lemma text_of_put_other: "q \<noteq> out \<Longrightarrow> text_of (put fs out s) q = text_of fs q"
  by (simp add: text_of_def node_at_put_other)


lemma read_text_put_other: "q \<noteq> out \<Longrightarrow> read_text (put fs out s) q = read_text fs q"
  by (simp add: read_text_def node_at_put_other)

lemma read_text_Inr: "read_text fs p = Inr t \<Longrightarrow> t = universal_newlines (text_of fs p)"
  by (auto simp: read_text_def text_of_def split: option.splits node.splits if_splits)

lemma open_w_Inr:
  assumes "open_w fs out = Inr fs1"
  shows "out \<noteq> []"
    and "\<exists>f. writable f \<and> node_at fs1 out = Some (File (f\<lparr>content := []\<rparr>))
          \<and> fs1 = AList.update out (File (f\<lparr>content := []\<rparr>)) fs
          \<and> (node_at fs out = None \<or> node_at fs out = Some (File f))"
proof -
  show ne: "out \<noteq> []" using assms by (auto simp: open_w_def node_at_def)
  show "\<exists>f. writable f \<and> node_at fs1 out = Some (File (f\<lparr>content := []\<rparr>))
          \<and> fs1 = AList.update out (File (f\<lparr>content := []\<rparr>)) fs
          \<and> (node_at fs out = None \<or> node_at fs out = Some (File f))"
  proof (cases "node_at fs out")
    case None
    with assms ne show ?thesis
      by (rule_tac x="\<lparr>readable = True, writable = True, content = []\<rparr>" in exI)
         (auto simp: open_w_def node_at_update split: option.splits node.splits)
  next
    case (Some nd)
    with assms ne show ?thesis
      by (cases nd) (auto simp: open_w_def node_at_update split: if_splits)
  qed
qed

lemma node_at_open_w_other:
  "open_w fs out = Inr fs1 \<Longrightarrow> q \<noteq> out \<Longrightarrow> node_at fs1 q = node_at fs q"
  using open_w_Inr[of fs out fs1] by (auto simp: node_at_update)

subsection \<open>The loop\<close>

lemma tracks_init:
  "node_at fs1 out = Some (File f) \<Longrightarrow> content f = [] \<Longrightarrow> tracks fs1 out (fs1, [])"
  by (simp add: tracks_def put_same_content)

lemma snd_write_out [simp]: "snd (write_out pol out st s) = snd st @ [s]"
  by (simp add: write_out_def Let_def)

lemma tracks_write_out:
  "tracks fs1 out st \<Longrightarrow> tracks fs1 out (write_out pol out st s)"
  unfolding tracks_def
proof -
  assume "\<exists>m. fst st = put fs1 out (take m (concat (snd st)))"
  then obtain m where m: "fst st = put fs1 out (take m (concat (snd st)))" ..
  show "\<exists>k. fst (write_out pol out st s) = put fs1 out (take k (concat (snd (write_out pol out st s))))"
    by (rule exI[of _ "max (length (text_of (fst st) out)) (min (length (concat (snd st @ [s]))) (pol (snd st @ [s])))"])
       (simp add: write_out_def Let_def m put_put)
qed

lemma read_text_tracks:
  "tracks fs1 out st \<Longrightarrow> p \<noteq> out \<Longrightarrow> read_text (fst st) p = read_text fs1 p"
  by (auto simp: tracks_def read_text_put_other)


lemma tracks_merge_loop:
  "tracks fs1 out st \<Longrightarrow> tracks fs1 out (snd (merge_loop pol out n ips st))"
proof (induction ips arbitrary: st)
  case Nil
  then show ?case by simp
next
  case (Cons x ips)
  obtain i p where x: "x = (i, p)" by (cases x)
  show ?case
  proof (cases "read_text (fst st) p")
    case (Inl e)
    with Cons.prems show ?thesis by (simp add: x)
  next
    case (Inr t)
    with Cons.prems show ?thesis
      by (auto simp: x Let_def intro!: Cons.IH tracks_write_out)
  qed
qed

lemma merge_loop_unaliased:
  assumes "out \<notin> snd ` set ips" and "tracks fs1 out st"
  shows "fst (merge_loop pol out n ips st) = fst (unaliased_loop n fs1 ips)
       \<and> concat (snd (snd (merge_loop pol out n ips st)))
           = concat (snd st) @ snd (unaliased_loop n fs1 ips)"
  using assms
proof (induction ips arbitrary: st)
  case Nil
  then show ?case by simp
next
  case (Cons x ips)
  obtain i p where x: "x = (i, p)" by (cases x)
  from Cons.prems x have pn: "p \<noteq> out" and rest: "out \<notin> snd ` set ips" by auto
  have rd: "read_text (fst st) p = read_text fs1 p"
    using Cons.prems(2) pn by (rule read_text_tracks)
  show ?case
  proof (cases "read_text fs1 p")
    case (Inl e)
    then show ?thesis by (simp add: x rd)
  next
    case (Inr t)
    let ?st1 = "write_out pol out st t"
    let ?st2 = "if int i < int n - 1 then write_out pol out ?st1 separator else ?st1"
    have tr: "tracks fs1 out ?st2"
      using Cons.prems(2) by (simp add: tracks_write_out)
    have h: "concat (snd ?st2) = concat (snd st) @ piece n i t"
      by (simp add: piece_def)
    from Cons.IH[OF rest tr] h show ?thesis
      by (simp add: x rd Inr Let_def split: prod.splits)
  qed
qed

lemma join_pieces:
  "k + length ps = n \<Longrightarrow>
   concat (map (\<lambda>(i, p). piece n i (g p)) (enumerate k ps)) = join separator (map g ps)"
proof (induction ps arbitrary: k)
  case Nil
  then show ?case by simp
next
  case (Cons p ps)
  show ?case
  proof (cases ps)
    case Nil
    with Cons.prems show ?thesis by (simp add: piece_def)
  next
    case (Cons q qs)
    with Cons.prems have "int k < int n - 1" by simp
    moreover from Cons.prems have "Suc k + length ps = n" by simp
    ultimately show ?thesis
      using Cons.IH[of "Suc k"] Cons by (simp add: piece_def)
  qed
qed

lemma universal_newlines_no_CR: "CR \<notin> set s \<Longrightarrow> universal_newlines s = s"
  by (induction s rule: universal_newlines.induct) auto

subsection \<open>The whole function\<close>

lemma unaliased_loop_Inr:
  "fst (unaliased_loop n fs ips) = Inr u \<Longrightarrow>
   snd (unaliased_loop n fs ips)
     = concat (map (\<lambda>(i, p). piece n i (universal_newlines (text_of fs p))) ips)"
proof (induction ips)
  case Nil
  show ?case by simp
next
  case (Cons x ips)
  obtain i p where x: "x = (i, p)" by (cases x)
  show ?case
  proof (cases "read_text fs p")
    case (Inl e)
    with Cons.prems show ?thesis by (simp add: x)
  next
    case (Inr t)
    with Cons.prems have "fst (unaliased_loop n fs ips) = Inr u"
      by (simp add: x split: prod.splits)
    with Cons.IH Inr read_text_Inr[OF Inr] show ?thesis
      by (auto simp: x split: prod.splits)
  qed
qed

lemma unaliased_loop_cong:
  "\<forall>p \<in> snd ` set ips. node_at fs p = node_at fs' p \<Longrightarrow>
   unaliased_loop n fs ips = unaliased_loop n fs' ips"
proof (induction ips)
  case Nil
  show ?case by simp
next
  case (Cons x ips)
  obtain i p where x: "x = (i, p)" by (cases x)
  with Cons.prems have rd: "read_text fs p = read_text fs' p" by (simp add: read_text_def)
  from Cons.prems have ih: "unaliased_loop n fs ips = unaliased_loop n fs' ips"
    by (intro Cons.IH) simp
  show ?case unfolding x unaliased_loop.simps rd ih ..
qed

lemma close_tracks:
  "tracks fs1 out st \<Longrightarrow> close out st = put fs1 out (concat (snd st))"
  by (auto simp: tracks_def close_def put_put)

lemma merge_opened:
  assumes "is_dir fs book" and "md_files fs book \<noteq> []" and "open_w fs out = Inr fs1"
  shows "merge_markdown_files pol fs book out =
           (case merge_loop pol out (length (md_files fs book)) (enumerate 0 (md_files fs book)) (fs1, []) of
              (Inl e, st) \<Rightarrow> (Inl (IOFailure e), put fs1 out (concat (snd st)))
            | (Inr u, st) \<Rightarrow> (Inr (), put fs1 out (concat (snd st))))"
proof -
  from open_w_Inr(2)[OF assms(3)] obtain f where
    f: "node_at fs1 out = Some (File (f\<lparr>content := []\<rparr>))" by blast
  have "tracks fs1 out (fs1, [])" by (rule tracks_init[OF f]) simp
  then have "tracks fs1 out (snd (merge_loop pol out (length (md_files fs book)) (enumerate 0 (md_files fs book)) (fs1, [])))"
    by (rule tracks_merge_loop)
  then show ?thesis using assms
    by (auto simp: merge_markdown_files_def exists_path_def is_dir_def Let_def close_tracks
             split: prod.splits sum.splits)
qed

lemma merge_unaliased:
  assumes "is_dir fs book" and "md_files fs book \<noteq> []" and "open_w fs out = Inr fs1"
    and "out \<notin> set (md_files fs book)"
  shows "merge_markdown_files pol fs book out =
           (case unaliased_loop (length (md_files fs book)) fs (enumerate 0 (md_files fs book)) of
              (Inl e, d) \<Rightarrow> (Inl (IOFailure e), put fs1 out d)
            | (Inr u, d) \<Rightarrow> (Inr (), put fs1 out d))"
proof -
  let ?n = "length (md_files fs book)" and ?ips = "enumerate 0 (md_files fs book)"
  from open_w_Inr(2)[OF assms(3)] obtain f where
    f: "node_at fs1 out = Some (File (f\<lparr>content := []\<rparr>))" by blast
  have tr: "tracks fs1 out (fs1, [])" by (rule tracks_init[OF f]) simp
  have na: "out \<notin> snd ` set ?ips" using assms(4) by (simp flip: set_map)
  have "\<forall>p \<in> snd ` set ?ips. node_at fs1 p = node_at fs p"
    using na node_at_open_w_other[OF assms(3)] by metis
  then have eq: "unaliased_loop ?n fs1 ?ips = unaliased_loop ?n fs ?ips"
    by (rule unaliased_loop_cong)
  from merge_loop_unaliased[OF na tr, of pol ?n] eq
  show ?thesis
    unfolding merge_opened[OF assms(1,2,3)]
    by (auto split: prod.splits sum.splits)
qed

lemma content_at_put:
  "node_at fs out = Some (File f) \<Longrightarrow> content_at (put fs out s) out = Some s"
  by (simp add: content_at_def node_at_put_same)

lemma merge_success_D:
  assumes "fst (merge_markdown_files pol fs book out) = Inr u"
  shows "is_dir fs book \<and> md_files fs book \<noteq> [] \<and> (\<exists>fs1. open_w fs out = Inr fs1)"
  using assms
  by (auto simp: merge_markdown_files_def Let_def split: if_splits sum.splits prod.splits)

lemma merge_success_content:
  assumes "fst (merge_markdown_files pol fs book out) = Inr ()"
    and "out \<notin> set (md_files fs book)"
  shows "md_files fs book \<noteq> []
       \<and> content_at (snd (merge_markdown_files pol fs book out)) out
           = Some (join separator (map (\<lambda>p. universal_newlines (text_of fs p)) (md_files fs book)))
       \<and> ((\<forall>p \<in> set (md_files fs book). CR \<notin> set (text_of fs p)) \<longrightarrow>
            content_at (snd (merge_markdown_files pol fs book out)) out
              = Some (join separator (map (text_of fs) (md_files fs book))))"
proof -
  let ?files = "md_files fs book"
  from merge_success_D[OF assms(1)] obtain fs1 where
    d: "is_dir fs book" and ne: "?files \<noteq> []" and op: "open_w fs out = Inr fs1" by blast
  from open_w_Inr(2)[OF op] obtain f where
    f: "node_at fs1 out = Some (File (f\<lparr>content := []\<rparr>))" by blast
  note m = merge_unaliased[OF d ne op assms(2), of pol]
  obtain r dat where ul: "unaliased_loop (length ?files) fs (enumerate 0 ?files) = (r, dat)"
    by (cases "unaliased_loop (length ?files) fs (enumerate 0 ?files)")
  from assms(1) m ul have r: "r = Inr ()" by (cases r) auto
  from unaliased_loop_Inr[of "length ?files" fs "enumerate 0 ?files" "()"] ul r
  have "dat = concat (map (\<lambda>(i, p). piece (length ?files) i (universal_newlines (text_of fs p)))
                       (enumerate 0 ?files))" by simp
  also have "\<dots> = join separator (map (\<lambda>p. universal_newlines (text_of fs p)) ?files)"
    by (rule join_pieces) simp
  finally have dat: "dat = join separator (map (\<lambda>p. universal_newlines (text_of fs p)) ?files)" .
  have c: "content_at (snd (merge_markdown_files pol fs book out)) out = Some dat"
    using m ul r f by (simp add: content_at_put)
  have "join separator (map (\<lambda>p. universal_newlines (text_of fs p)) ?files)
          = join separator (map (text_of fs) ?files)"
    if "\<forall>p \<in> set ?files. CR \<notin> set (text_of fs p)"
  proof -
    have "map (\<lambda>p. universal_newlines (text_of fs p)) ?files = map (text_of fs) ?files"
      using that by (intro map_cong) (simp_all add: universal_newlines_no_CR)
    then show ?thesis by (simp only:)
  qed
  with ne c dat show ?thesis by simp
qed

subsection \<open>The matched entries\<close>

lemma set_glob_md: "set (glob_md fs d) = {p \<in> fst ` set fs. glob_match d p}"
  by (auto simp: glob_md_def)

lemma set_md_files: "set (md_files fs d) = {p \<in> fst ` set fs. glob_match d p}"
  by (simp add: md_files_def set_glob_md)

lemma distinct_md_files: "distinct (md_files fs d)"
  by (simp add: md_files_def glob_md_def)

lemma sorted_md_files: "sorted (md_files fs d)"
  by (simp add: md_files_def)








subsection \<open>Opening and rewriting the output\<close>



lemma node_at_put_cases:
  "node_at (put fs out s) d =
     (case node_at fs d of
        Some (File f) \<Rightarrow> Some (File (if d = out then f\<lparr>content := s\<rparr> else f))
      | x \<Rightarrow> x)"
proof (cases "d = out")
  case False
  then show ?thesis
    by (simp add: node_at_put_other split: option.splits node.splits)
next
  case True
  show ?thesis
  proof (cases "node_at fs out")
    case None
    with True show ?thesis by (simp add: put_def)
  next
    case (Some nd)
    show ?thesis
    proof (cases nd)
      case Dir
      with Some True show ?thesis by (simp add: put_def)
    next
      case (File f)
      with Some True show ?thesis by (simp add: node_at_put_same)
    qed
  qed
qed

lemma is_dir_put [simp]: "is_dir (put fs out s) d = is_dir fs d"
  by (simp add: is_dir_def node_at_put_cases split: option.splits node.splits)

lemma exists_path_put [simp]: "exists_path (put fs out s) d = exists_path fs d"
  by (simp add: exists_path_def node_at_put_cases split: option.splits node.splits)

lemma md_files_put [simp]: "md_files (put fs out s) d = md_files fs d"
  by (simp add: md_files_def glob_md_def keys_put)

lemma open_w_put_before: "open_w (put fs out c) out = open_w fs out"
proof (cases "node_at fs out")
  case None
  then show ?thesis by (simp add: put_def)
next
  case (Some nd)
  show ?thesis
  proof (cases nd)
    case Dir
    with Some show ?thesis by (simp add: put_def)
  next
    case (File f)
    with Some have ne: "out \<noteq> []" by (auto simp: node_at_def)
    from Some File have "node_at (put fs out c) out = Some (File (f\<lparr>content := c\<rparr>))"
      by (simp add: node_at_put_same)
    moreover from Some File have "put fs out c = AList.update out (File (f\<lparr>content := c\<rparr>)) fs"
      by (simp add: put_def)
    ultimately show ?thesis using Some File
      by (simp add: open_w_def)
  qed
qed

lemma open_w_put_after:
  assumes "open_w fs out = Inr fs1"
  shows "open_w (put fs1 out s) out = Inr fs1"
proof -
  from open_w_Inr[OF assms] obtain f where ne: "out \<noteq> []" and w: "writable f"
    and f: "node_at fs1 out = Some (File (f\<lparr>content := []\<rparr>))" by blast
  have "open_w (put fs1 out s) out = open_w fs1 out" by (rule open_w_put_before)
  also have "\<dots> = Inr (AList.update out (File (f\<lparr>content := []\<rparr>)) fs1)"
    using f w by (simp add: open_w_def)
  also have "AList.update out (File (f\<lparr>content := []\<rparr>)) fs1 = fs1"
    using f ne by (intro update_triv) (simp add: node_at_def)
  finally show ?thesis .
qed

lemma is_dir_open_w: "open_w fs out = Inr fs1 \<Longrightarrow> is_dir fs1 d = is_dir fs d"
  using open_w_Inr(2)[of fs out fs1] node_at_open_w_other[of fs out fs1 d]
  by (cases "d = out") (auto simp: is_dir_def)

lemma md_files_open_w:
  assumes "open_w fs out = Inr fs1" and "\<not> glob_match d out \<or> out \<in> fst ` set fs"
  shows "md_files fs1 d = md_files fs d"
proof -
  from open_w_Inr(2)[OF assms(1)] obtain f where
    "fs1 = AList.update out (File (f\<lparr>content := []\<rparr>)) fs" by blast
  then have "fst ` set fs1 = {out} \<union> fst ` set fs" by (simp add: dom_update)
  with assms(2) have "set (md_files fs1 d) = set (md_files fs d)"
    by (auto simp: set_md_files)
  then show ?thesis
    by (intro sorted_distinct_set_unique) (simp_all add: sorted_md_files distinct_md_files)
qed

lemma md_files_glob_match: "p \<in> set (md_files fs d) \<Longrightarrow> glob_match d p"
  by (simp add: set_md_files)


lemma merge_not_opened:
  assumes "\<not> is_dir fs book \<or> md_files fs book = [] \<or> open_w fs out = Inl e"
  shows "snd (merge_markdown_files pol fs book out) = fs
       \<and> merge_markdown_files pol' fs book out = merge_markdown_files pol fs book out"
  using assms
  by (auto simp: merge_markdown_files_def Let_def is_dir_def exists_path_def)

lemma merge_rerun_unaliased:
  assumes d: "is_dir fs book" and ne: "md_files fs book \<noteq> []"
    and op: "open_w fs out = Inr fs1" and ng: "\<not> glob_match book out"
  shows "merge_markdown_files pol' (snd (merge_markdown_files pol fs book out)) book out
           = merge_markdown_files pol fs book out"
proof -
  let ?files = "md_files fs book"
  let ?n = "length ?files" and ?ips = "enumerate 0 ?files"
  from ng have na: "out \<notin> set ?files" using md_files_glob_match by blast
  obtain r dat where ul: "unaliased_loop ?n fs ?ips = (r, dat)"
    by (cases "unaliased_loop ?n fs ?ips")
  let ?fs' = "put fs1 out dat"
  have m1: "merge_markdown_files pol fs book out =
              ((case r of Inl e \<Rightarrow> Inl (IOFailure e) | Inr u \<Rightarrow> Inr ()), ?fs')"
    unfolding merge_unaliased[OF d ne op na] ul by (cases r) simp_all
  have d': "is_dir ?fs' book" using d by (simp add: is_dir_open_w[OF op])
  have f': "md_files ?fs' book = ?files"
    using ng by (simp add: md_files_open_w[OF op])
  have op': "open_w ?fs' out = Inr fs1" by (rule open_w_put_after[OF op])
  have "\<forall>p \<in> snd ` set ?ips. node_at ?fs' p = node_at fs p"
  proof
    fix p assume "p \<in> snd ` set ?ips"
    then have "p \<in> set ?files" by (simp flip: set_map)
    with na have "p \<noteq> out" by blast
    then show "node_at ?fs' p = node_at fs p"
      by (simp add: node_at_put_other node_at_open_w_other[OF op])
  qed
  then have ul': "unaliased_loop ?n ?fs' ?ips = (r, dat)"
    using ul unaliased_loop_cong[of ?ips ?fs' fs ?n] by simp
  have m2: "merge_markdown_files pol' ?fs' book out =
              ((case r of Inl e \<Rightarrow> Inl (IOFailure e) | Inr u \<Rightarrow> Inr ()), put fs1 out dat)"
  proof -
    have ne': "md_files ?fs' book \<noteq> []" unfolding f' by (rule ne)
    have na': "out \<notin> set (md_files ?fs' book)" unfolding f' by (rule na)
    note merge_unaliased[OF d' ne' op' na', of pol', unfolded f' ul']
    then show ?thesis by (cases r) simp_all
  qed
  show ?thesis unfolding m1 using m2 by simp
qed

subsection \<open>The output among the files read\<close>











subsection \<open>Failing reads\<close>

lemma unaliased_loop_all_ok:
  "\<forall>p \<in> snd ` set ips. \<exists>t. read_text fs p = Inr t \<Longrightarrow> fst (unaliased_loop n fs ips) = Inr ()"
proof (induction ips)
  case Nil
  show ?case by simp
next
  case (Cons x ips)
  obtain i p where x: "x = (i, p)" by (cases x)
  from Cons.prems x obtain t where t: "read_text fs p = Inr t" by auto
  from Cons.prems have "fst (unaliased_loop n fs ips) = Inr ()" by (intro Cons.IH) simp
  with t show ?case by (cases "unaliased_loop n fs ips") (simp add: x)
qed






subsection \<open>Two readings of the model\<close>

text \<open>
  A matched entry need not be a regular file. A subdirectory named \<open>x.md\<close> is matched, so
  the output is opened and truncated, and reading the entry then fails.
\<close>

lemma md_directory_is_matched:
  "md_files fs_md_dir [''book''] = [[''book'', ''x.md'']]
   \<and> fst (merge_markdown_files flush_at_close fs_md_dir [''book''] [''compiled.md''])
       = Inl (IOFailure (OSError EISDIR))
   \<and> content_at (snd (merge_markdown_files flush_at_close fs_md_dir [''book''] [''compiled.md'']))
        [''compiled.md''] = Some []"
  by code_simp

text \<open>A file that ends inside a two-byte sequence cannot be decoded; the whole sequence can.\<close>

lemma undecodable_file_fails:
  "read_text [([''f''], rw_file [CHR 0xC3])] [''f''] = Inl UnicodeDecodeError
   \<and> read_text [([''f''], rw_file [CHR 0xC3, CHR 0xA9])] [''f''] = Inr [CHR 0xC3, CHR 0xA9]"
  by code_simp

subsection \<open>When the merge succeeds\<close>

lemma unaliased_loop_Inr_reads:
  "fst (unaliased_loop n fs ips) = Inr u \<Longrightarrow> \<forall>p \<in> snd ` set ips. \<exists>t. read_text fs p = Inr t"
proof (induction ips)
  case Nil
  show ?case by simp
next
  case (Cons x ips)
  obtain i p where x: "x = (i, p)" by (cases x)
  show ?case
  proof (cases "read_text fs p")
    case (Inl e)
    with Cons.prems show ?thesis by (simp add: x)
  next
    case (Inr t)
    with Cons.prems have "fst (unaliased_loop n fs ips) = Inr u"
      by (cases "unaliased_loop n fs ips") (simp add: x)
    from Cons.IH[OF this] Inr show ?thesis by (simp add: x)
  qed
qed

lemma merge_success_iff:
  assumes "out \<notin> set (md_files fs book)"
  shows "(fst (merge_markdown_files pol fs book out) = Inr ())
       = (is_dir fs book \<and> md_files fs book \<noteq> [] \<and> (\<exists>fs1. open_w fs out = Inr fs1)
          \<and> list_all (\<lambda>p. \<exists>t. read_text fs p = Inr t) (md_files fs book))"
proof
  assume ok: "fst (merge_markdown_files pol fs book out) = Inr ()"
  from merge_success_D[OF ok] obtain fs1 where
    d: "is_dir fs book" and ne: "md_files fs book \<noteq> []" and op: "open_w fs out = Inr fs1" by blast
  let ?n = "length (md_files fs book)" and ?ips = "enumerate 0 (md_files fs book)"
  from ok merge_unaliased[OF d ne op assms, of pol]
  have "fst (unaliased_loop ?n fs ?ips) = Inr ()"
    by (cases "unaliased_loop ?n fs ?ips"; cases "fst (unaliased_loop ?n fs ?ips)") auto
  from unaliased_loop_Inr_reads[OF this]
  have "list_all (\<lambda>p. \<exists>t. read_text fs p = Inr t) (md_files fs book)"
    by (simp add: list_all_iff flip: set_map)
  with d ne op show "is_dir fs book \<and> md_files fs book \<noteq> [] \<and> (\<exists>fs1. open_w fs out = Inr fs1)
          \<and> list_all (\<lambda>p. \<exists>t. read_text fs p = Inr t) (md_files fs book)" by blast
next
  assume a: "is_dir fs book \<and> md_files fs book \<noteq> [] \<and> (\<exists>fs1. open_w fs out = Inr fs1)
          \<and> list_all (\<lambda>p. \<exists>t. read_text fs p = Inr t) (md_files fs book)"
  then obtain fs1 where
    d: "is_dir fs book" and ne: "md_files fs book \<noteq> []" and op: "open_w fs out = Inr fs1"
    and all: "list_all (\<lambda>p. \<exists>t. read_text fs p = Inr t) (md_files fs book)" by blast
  let ?n = "length (md_files fs book)" and ?ips = "enumerate 0 (md_files fs book)"
  from all have "\<forall>p \<in> snd ` set ?ips. \<exists>t. read_text fs p = Inr t"
    by (simp add: list_all_iff flip: set_map)
  then have "fst (unaliased_loop ?n fs ?ips) = Inr ()" by (rule unaliased_loop_all_ok)
  with merge_unaliased[OF d ne op assms, of pol]
  show "fst (merge_markdown_files pol fs book out) = Inr ()"
    by (cases "unaliased_loop ?n fs ?ips") auto
qed

section \<open>The claims\<close>

text \<open>
  Claim C1, as amended. Let the output path be none of the matched entries. The merge
  succeeds exactly when the source is a directory with at least one matched entry, the
  output can be opened for writing, and every matched entry can be read and decoded. When
  it succeeds, the output file holds exactly the contents of the matched entries in order,
  each after the universal-newline translation of \<open>read_text\<close>, with the separator
  between consecutive ones and none after the last. Files that hold no carriage return are
  passed through byte for byte, so a single such file is copied exactly.
\<close>

theorem merge_writes_joined_contents:
  assumes "out \<notin> set (md_files fs book)"
  shows "((fst (merge_markdown_files pol fs book out) = Inr ())
          = (is_dir fs book \<and> md_files fs book \<noteq> [] \<and> (\<exists>fs1. open_w fs out = Inr fs1)
             \<and> list_all (\<lambda>p. \<exists>t. read_text fs p = Inr t) (md_files fs book)))
       \<and> (fst (merge_markdown_files pol fs book out) = Inr () \<longrightarrow>
            content_at (snd (merge_markdown_files pol fs book out)) out
              = Some (join separator (map (\<lambda>p. universal_newlines (text_of fs p)) (md_files fs book)))
            \<and> ((\<forall>p \<in> set (md_files fs book). CR \<notin> set (text_of fs p)) \<longrightarrow>
                 content_at (snd (merge_markdown_files pol fs book out)) out
                   = Some (join separator (map (text_of fs) (md_files fs book)))))"
  using merge_success_iff[OF assms, of pol] merge_success_content[of pol fs book out] assms
  by blast

text \<open>
  The claim as stated fails on a single file holding \<open>A CR LF B\<close>: the merge succeeds and
  the output is \<open>A LF B\<close>, not the file's content.
\<close>

theorem merge_not_bytewise_counterexample:
  "fst (merge_markdown_files flush_at_close fs_crlf [''book''] [''compiled.md'']) = Inr ()
   \<and> md_files fs_crlf [''book''] = [[''book'', ''a.md'']]
   \<and> content_at (snd (merge_markdown_files flush_at_close fs_crlf [''book''] [''compiled.md'']))
        [''compiled.md''] = Some [CHR ''A'', LF, CHR ''B'']
   \<and> content_at (snd (merge_markdown_files flush_at_close fs_crlf [''book''] [''compiled.md'']))
        [''compiled.md''] \<noteq> content_at fs_crlf [''book'', ''a.md'']"
  by code_simp

text \<open>The specification's example: \<open>a.md\<close> holding \<open>A\<close> and \<open>b.md\<close> holding \<open>B\<close>.\<close>

theorem merge_writes_joined_contents_witness:
  "fst (merge_markdown_files flush_at_close fs_ab [''book''] [''compiled.md'']) = Inr ()
   \<and> [''compiled.md''] \<notin> set (md_files fs_ab [''book''])
   \<and> list_all (\<lambda>p. CR \<notin> set (text_of fs_ab p)) (md_files fs_ab [''book''])
   \<and> content_at (snd (merge_markdown_files flush_at_close fs_ab [''book''] [''compiled.md'']))
        [''compiled.md''] = Some (''A'' @ separator @ ''B'')"
proof -
  have h1: "fst (merge_markdown_files flush_at_close fs_ab [''book''] [''compiled.md'']) = Inr ()"
    by code_simp
  have h2: "[''compiled.md''] \<notin> set (md_files fs_ab [''book''])"
    by code_simp
  have h3: "\<forall>p \<in> set (md_files fs_ab [''book'']). CR \<notin> set (text_of fs_ab p)"
    by code_simp
  have j: "join separator (map (text_of fs_ab) (md_files fs_ab [''book''])) = ''A'' @ separator @ ''B''"
    by code_simp
  from merge_writes_joined_contents[OF h2, of flush_at_close] h1 h3
  have "content_at (snd (merge_markdown_files flush_at_close fs_ab [''book''] [''compiled.md'']))
          [''compiled.md''] = Some (join separator (map (text_of fs_ab) (md_files fs_ab [''book''])))"
    by blast
  with h1 h2 h3 show ?thesis unfolding j list_all_iff by blast
qed





text \<open>
  Claim C4. When the source path does not exist, the merge fails with \<open>NotFoundError\<close>
  and the file system is left as it was.
\<close>

theorem missing_directory_fails:
  "\<not> exists_path fs book \<Longrightarrow>
   merge_markdown_files pol fs book out = (Inl NotFoundError, fs)"
  by (simp add: merge_markdown_files_def)

theorem missing_directory_fails_witness:
  "\<not> exists_path fs_missing [''book'']
   \<and> merge_markdown_files flush_at_close fs_missing [''book''] [''compiled.md'']
       = (Inl NotFoundError, fs_missing)
   \<and> content_at fs_missing [''compiled.md''] = Some ''old''"
proof -
  have h: "\<not> exists_path fs_missing [''book'']" by code_simp
  have c: "content_at fs_missing [''compiled.md''] = Some ''old''" by code_simp
  from missing_directory_fails[OF h] h c show ?thesis by blast
qed

text \<open>
  Claim C5. When the source path exists and is no directory, the merge fails with
  \<open>NotADirectoryError\<close> and the file system is left as it was.
\<close>

theorem not_a_directory_fails:
  "exists_path fs book \<Longrightarrow> \<not> is_dir fs book \<Longrightarrow>
   merge_markdown_files pol fs book out = (Inl NotADirectoryError, fs)"
  by (simp add: merge_markdown_files_def)

theorem not_a_directory_fails_witness:
  "exists_path fs_plain [''book''] \<and> \<not> is_dir fs_plain [''book'']
   \<and> merge_markdown_files flush_at_close fs_plain [''book''] [''compiled.md'']
       = (Inl NotADirectoryError, fs_plain)"
proof -
  have h1: "exists_path fs_plain [''book'']" by code_simp
  have h2: "\<not> is_dir fs_plain [''book'']" by code_simp
  from not_a_directory_fails[OF h1 h2] h1 h2 show ?thesis by blast
qed



text \<open>
  Claim C7. When the output path is no \<open>*.md\<close> entry of the source directory, running the
  merge again on the file system the first run left, under any buffering, returns what
  the first run returned and leaves the file system exactly as the first run left it:
  the output file is byte-identical and nothing else changes. (That the merge is
  deterministic is its being a function of the file system.)
\<close>

theorem merge_twice_same:
  assumes "\<not> glob_match book out"
  shows "merge_markdown_files pol' (snd (merge_markdown_files pol fs book out)) book out
           = merge_markdown_files pol fs book out"
proof (cases "is_dir fs book \<and> md_files fs book \<noteq> []")
  case False
  then show ?thesis using merge_not_opened[of fs book out undefined pol pol'] by auto
next
  case True
  show ?thesis
  proof (cases "open_w fs out")
    case (Inl e)
    then show ?thesis using merge_not_opened[of fs book out e pol pol'] by auto
  next
    case (Inr fs1)
    with True assms show ?thesis by (intro merge_rerun_unaliased) auto
  qed
qed

theorem merge_twice_same_witness:
  "\<not> glob_match [''book''] [''compiled.md'']
   \<and> content_at (snd (merge_markdown_files flush_at_close fs_ab [''book''] [''compiled.md'']))
        [''compiled.md''] = Some (''A'' @ separator @ ''B'')
   \<and> merge_markdown_files write_through
        (snd (merge_markdown_files flush_at_close fs_ab [''book''] [''compiled.md'']))
        [''book''] [''compiled.md'']
       = merge_markdown_files flush_at_close fs_ab [''book''] [''compiled.md'']"
proof -
  have h: "\<not> glob_match [''book''] [''compiled.md'']" by code_simp
  have c: "content_at (snd (merge_markdown_files flush_at_close fs_ab [''book''] [''compiled.md'']))
        [''compiled.md''] = Some (''A'' @ separator @ ''B'')" by code_simp
  from merge_twice_same[OF h, of write_through flush_at_close fs_ab] h c show ?thesis by blast
qed








end
